theory Spec2Isabelle
  imports Complex_Main "HOL-Library.Sublist"
begin

section \<open>DDR-Tracker: the temporal landmark pipeline of Model/DataCollection.py\<close>

text \<open>
  The embedding follows \<^verbatim>\<open>src/Model/DataCollection.py\<close> function by function.
  Python floats are idealised as \<^typ>\<open>real\<close>: every arithmetic statement below is about
  the real-number reading of the source's expressions, not about IEEE rounding.
  Python ints are \<^typ>\<open>int\<close>, strings are \<^typ>\<open>string\<close> (bytes; \<^verbatim>\<open>lower()\<close> acts on
  the ASCII letters).
\<close>

subsection \<open>Outcomes that are not a return value\<close>

text \<open>
  The exceptions the modelled code can raise. \<open>NotANumber\<close> is not an exception:
  \<^verbatim>\<open>np.mean\<close> of an empty slice returns an array of NaN (with a warning), which has no
  counterpart in \<^typ>\<open>real\<close>; the model stops there with this outcome.
\<close>

datatype py_error = ZeroDivisionError | KeyError | IndexError | ValueError | NotANumber

subsection \<open>Data model\<close>

text \<open>One detected body keypoint (\<^verbatim>\<open>landmark.x\<close>, \<^verbatim>\<open>.y\<close>, \<^verbatim>\<open>.z\<close>, \<^verbatim>\<open>.visibility\<close>).\<close>

record landmark =
  lm_x :: real
  lm_y :: real
  lm_z :: real
  lm_visibility :: real

text \<open>
  A frame dictionary. The three metadata keys are fields; the numeric keys
  \<^verbatim>\<open>landmark_{idx}_{coord}\<close> are the positions of \<open>landmark_values\<close>: key
  \<^verbatim>\<open>landmark_{idx}_x\<close> is position \<open>4 * idx\<close>, \<^verbatim>\<open>_y\<close> is \<open>4 * idx + 1\<close>, \<^verbatim>\<open>_z\<close> is
  \<open>4 * idx + 2\<close> and \<^verbatim>\<open>_visibility\<close> is \<open>4 * idx + 3\<close>. A dictionary that lacks some of
  the 132 keys is a vector shorter than 132.
\<close>

record frame =
  sample_number :: int
  frame_number :: int
  dance_name :: string
  landmark_values :: "real list"

definition VALID_DANCE_NAMES :: "string list" where
  "VALID_DANCE_NAMES =
     [''default_dance'', ''griddy'', ''floss'', ''squabble'', ''boogie_down'', ''laugh'',
      ''boogie_up'']"

subsection \<open>create_landmark_dict and the flattening loop of process_video\<close>

text \<open>
  \<^verbatim>\<open>create_landmark_dict\<close> stores four keys for every landmark the detector returned;
  the vector holds them in key order.
\<close>

definition create_landmark_dict :: "landmark list \<Rightarrow> int \<Rightarrow> int \<Rightarrow> string \<Rightarrow> frame" where
  "create_landmark_dict landmarks sample_no frame_no dance =
     \<lparr>sample_number = sample_no, frame_number = frame_no, dance_name = dance,
      landmark_values =
        concat (map (\<lambda>l. [lm_x l, lm_y l, lm_z l, lm_visibility l]) landmarks)\<rparr>"

text \<open>
  Lines 174-181: the keys of landmarks 0..32 are read back from the dictionary; a missing
  key raises \<open>KeyError\<close>.
\<close>

definition flattened_landmarks :: "frame \<Rightarrow> py_error + real list" where
  "flattened_landmarks landmark_dict =
     (if length (landmark_values landmark_dict) < 132 then Inl KeyError
      else Inr (take 132 (landmark_values landmark_dict)))"

subsection \<open>smooth_landmarks\<close>

text \<open>Python's \<^verbatim>\<open>xs[start:]\<close> for any integer \<open>start\<close>.\<close>

definition slice_from :: "'a list \<Rightarrow> int \<Rightarrow> 'a list" where
  "slice_from xs start =
     (let n = int (length xs);
          s = (if start < 0 then max 0 (start + n) else min start n)
      in drop (nat s) xs)"

text \<open>
  \<^verbatim>\<open>np.array(buffer)\<close> needs rows of one length. \<^verbatim>\<open>np.mean(rows, axis=0)\<close> adds the rows
  up one after the other and divides every component by the number of rows.
\<close>

definition np_array :: "real list list \<Rightarrow> py_error + real list list" where
  "np_array rows =
     (if \<forall>r \<in> set rows. length r = length (hd rows) then Inr rows else Inl ValueError)"

definition vec_add :: "real list \<Rightarrow> real list \<Rightarrow> real list" where
  "vec_add u v = map2 (+) u v"

definition np_mean_axis0 :: "real list list \<Rightarrow> py_error + real list" where
  "np_mean_axis0 rows =
     (case rows of
        [] \<Rightarrow> Inl NotANumber
      | r # rs \<Rightarrow> Inr (map (\<lambda>s. s / real (length rows)) (foldl vec_add r rs)))"

definition smooth_landmarks :: "real list list \<Rightarrow> int \<Rightarrow> py_error + real list option" where
  "smooth_landmarks buffer smoothing_window =
     (if length buffer < 1 then Inr None
      else case np_array buffer of
             Inl e \<Rightarrow> Inl e
           | Inr buffer_array \<Rightarrow>
               (case np_mean_axis0 (slice_from buffer_array (- smoothing_window)) of
                  Inl e \<Rightarrow> Inl e
                | Inr smoothed \<Rightarrow> Inr (Some smoothed)))"

text \<open>
  The mean as the specification words it: for every component, the sum of that
  component over all vectors, divided by the number of vectors.
\<close>

definition naive_mean :: "real list list \<Rightarrow> real list" where
  "naive_mean vs =
     map (\<lambda>j. (\<Sum>v\<leftarrow>vs. v ! j) / real (length vs)) [0..<132]"

subsection \<open>interpolate_missing_frames\<close>

text \<open>
  The loop over \<^verbatim>\<open>range(1, num_missing + 1)\<close>; reading a landmark key that a frame lacks
  raises \<open>KeyError\<close>, which can only happen when the loop body runs at all.
\<close>

definition interpolated_dict :: "frame \<Rightarrow> frame \<Rightarrow> int \<Rightarrow> int \<Rightarrow> frame" where
  "interpolated_dict prev_frame next_frame num_missing i =
     (let ratio = real_of_int i / real_of_int (num_missing + 1)
      in \<lparr>sample_number = sample_number prev_frame,
          frame_number = frame_number prev_frame + i,
          dance_name = dance_name prev_frame,
          landmark_values =
            map (\<lambda>k. (1 - ratio) * landmark_values prev_frame ! k
                      + ratio * landmark_values next_frame ! k) [0..<132]\<rparr>)"

definition interpolate_missing_frames :: "frame \<Rightarrow> frame \<Rightarrow> int \<Rightarrow> py_error + frame list" where
  "interpolate_missing_frames prev_frame next_frame num_missing =
     (if 1 \<le> num_missing
         \<and> (length (landmark_values prev_frame) < 132
            \<or> length (landmark_values next_frame) < 132)
      then Inl KeyError
      else Inr (map (interpolated_dict prev_frame next_frame num_missing) [1..num_missing]))"

subsection \<open>extract_dance_name\<close>

text \<open>\<^verbatim>\<open>str.lower\<close> on bytes: the ASCII capitals move to their small letters.\<close>

definition lower_char :: "char \<Rightarrow> char" where
  "lower_char c =
     (let n = (of_char c :: nat) in if 65 \<le> n \<and> n \<le> 90 then char_of (n + 32) else c)"

definition lower :: "string \<Rightarrow> string" where
  "lower s = map lower_char s"

text \<open>
  The first vocabulary entry whose lowercased form is a substring of the lowercased
  filename wins; \<^verbatim>\<open>a in b\<close> on strings is \<^const>\<open>sublist\<close>.
\<close>

fun extract_dance_name :: "string \<Rightarrow> string list \<Rightarrow> string" where
  "extract_dance_name filename [] = ''unknown''"
| "extract_dance_name filename (dance # valid_dances) =
     (if sublist (lower dance) (lower filename) then lower dance
      else extract_dance_name filename valid_dances)"

text \<open>\<^verbatim>\<open>os.path.basename\<close>: what follows the last slash.\<close>

definition basename :: "string \<Rightarrow> string" where
  "basename path = rev (takeWhile (\<lambda>c. c \<noteq> CHR ''/'') (rev path))"

subsection \<open>The video, the detector and the state of the sampling loop\<close>

text \<open>
  What the detector returns for a frame: \<open>None\<close> for no pose, otherwise the landmarks.
\<close>

type_synonym detection = "landmark list option"

text \<open>
  The collaborators of \<^verbatim>\<open>process_video\<close>, as far as the code observes them:
  \<open>total_frames\<close> is \<^verbatim>\<open>int(cap.get(CAP_PROP_FRAME_COUNT))\<close>, \<open>opened\<close> is
  \<^verbatim>\<open>cap.isOpened()\<close>, and \<open>frames\<close> are the frames that \<^verbatim>\<open>cap.read()\<close> delivers before
  its first failure, each with the answer \<^verbatim>\<open>pose.process\<close> gives when that frame is
  submitted. Which frames are submitted before a given one depends on positions only,
  so the answer of a stateful detector is a function of the video.
\<close>

record video =
  video_path :: string
  opened :: bool
  total_frames :: int
  frames :: "detection list"

text \<open>
  The local variables of the loop, with two counters for its effects: \<open>reads\<close> counts
  the calls of \<^verbatim>\<open>cap.read()\<close> and \<open>submitted\<close> lists the 0-based positions of the frames
  passed to \<^verbatim>\<open>pose.process\<close>, oldest first.
\<close>

record state =
  frame_count :: nat
  sampled_frames :: int
  frame_buffer :: "real list list"
  data :: "frame list"
  reads :: nat
  submitted :: "nat list"

definition initial_state :: state where
  "initial_state =
     \<lparr>frame_count = 0, sampled_frames = 0, frame_buffer = [], data = [], reads = 0,
      submitted = []\<rparr>"

text \<open>\<^verbatim>\<open>deque(maxlen=w).append(v)\<close>: the oldest entries leave once there are more than \<open>w\<close>.\<close>

definition deque_append :: "nat \<Rightarrow> 'a list \<Rightarrow> 'a \<Rightarrow> 'a list" where
  "deque_append maxlen buffer v = drop (length buffer + 1 - maxlen) (buffer @ [v])"

text \<open>Lines 187-198: the record built from the smoothed vector.\<close>

definition smoothed_dict :: "int \<Rightarrow> int \<Rightarrow> string \<Rightarrow> real list \<Rightarrow> py_error + frame" where
  "smoothed_dict sample_no frame_no dance smoothed_landmarks =
     (if length smoothed_landmarks < 132 then Inl IndexError
      else Inr \<lparr>sample_number = sample_no, frame_number = frame_no, dance_name = dance,
                landmark_values = map (\<lambda>k. smoothed_landmarks ! k) [0..<132]\<rparr>)"

subsection \<open>process_video\<close>

text \<open>Lines 169-202: the detector found a pose.\<close>

definition on_detection ::
  "int \<Rightarrow> string \<Rightarrow> nat \<Rightarrow> landmark list \<Rightarrow> state \<Rightarrow> py_error + state" where
  "on_detection sample_no dance smoothing_window pose_landmarks st =
     (let landmark_dict =
            create_landmark_dict pose_landmarks sample_no (sampled_frames st + 1) dance
      in case flattened_landmarks landmark_dict of
           Inl e \<Rightarrow> Inl e
         | Inr flat \<Rightarrow>
             (let buffer = deque_append smoothing_window (frame_buffer st) flat
              in case smooth_landmarks buffer (int smoothing_window) of
                   Inl e \<Rightarrow> Inl e
                 | Inr None \<Rightarrow>
                     Inr (st\<lparr>frame_buffer := buffer,
                             sampled_frames := sampled_frames st + 1\<rparr>)
                 | Inr (Some smoothed) \<Rightarrow>
                     (case smoothed_dict sample_no (sampled_frames st + 1) dance smoothed of
                        Inl e \<Rightarrow> Inl e
                      | Inr d \<Rightarrow>
                          Inr (st\<lparr>frame_buffer := buffer, data := data st @ [d],
                                  sampled_frames := sampled_frames st + 1\<rparr>))))"

text \<open>Lines 205-219: the detector found nothing.\<close>

definition on_missing :: "state \<Rightarrow> py_error + state" where
  "on_missing st =
     (if 2 \<le> length (data st) then
        (let prev_frame = data st ! (length (data st) - 2);
             next_frame = data st ! (length (data st) - 1)
         in case interpolate_missing_frames prev_frame next_frame 1 of
              Inl e \<Rightarrow> Inl e
            | Inr interpolated_frames \<Rightarrow>
                Inr (st\<lparr>data := data st @ interpolated_frames,
                        sampled_frames := sampled_frames st + 1\<rparr>))
      else Inr st)"

text \<open>
  Lines 162-221: what one pass of the loop does with a decoded frame, up to and
  including \<^verbatim>\<open>frame_count += 1\<close>.
\<close>

definition process_frame ::
  "int \<Rightarrow> string \<Rightarrow> int \<Rightarrow> nat \<Rightarrow> detection \<Rightarrow> state \<Rightarrow> py_error + state" where
  "process_frame sample_no dance frame_interval smoothing_window results st =
     (if int (frame_count st) mod frame_interval = 0 then
        (let st1 = st\<lparr>submitted := submitted st @ [frame_count st]\<rparr>
         in case (case results of
                    Some pose_landmarks \<Rightarrow>
                      on_detection sample_no dance smoothing_window pose_landmarks st1
                  | None \<Rightarrow> on_missing st1) of
              Inl e \<Rightarrow> Inl e
            | Inr st2 \<Rightarrow> Inr (st2\<lparr>frame_count := frame_count st2 + 1\<rparr>))
      else Inr (st\<lparr>frame_count := frame_count st + 1\<rparr>))"

text \<open>
  Lines 155-221: the \<^verbatim>\<open>while\<close> loop over the frames still to be read. A read past the
  last frame fails and leaves the loop.
\<close>

fun sample_loop ::
  "bool \<Rightarrow> int \<Rightarrow> int \<Rightarrow> string \<Rightarrow> int \<Rightarrow> nat \<Rightarrow> state \<Rightarrow> detection list
     \<Rightarrow> py_error + state" where
  "sample_loop is_opened frames_per_sample sample_no dance frame_interval smoothing_window
     st [] =
     (if is_opened \<and> sampled_frames st < frames_per_sample
      then Inr (st\<lparr>reads := reads st + 1\<rparr>)
      else Inr st)"
| "sample_loop is_opened frames_per_sample sample_no dance frame_interval smoothing_window
     st (results # rest) =
     (if is_opened \<and> sampled_frames st < frames_per_sample
      then (case process_frame sample_no dance frame_interval smoothing_window results
                   (st\<lparr>reads := reads st + 1\<rparr>) of
              Inl e \<Rightarrow> Inl e
            | Inr st' \<Rightarrow>
                sample_loop is_opened frames_per_sample sample_no dance frame_interval
                  smoothing_window st' rest)
      else Inr st)"

text \<open>
  \<^verbatim>\<open>process_video\<close>, returning the final loop state; the function of the source returns
  its \<open>data\<close>. The order of the checks is the source's: the frame count, the division
  for the interval, the dance name, the construction of the deque (a negative
  \<^verbatim>\<open>maxlen\<close> raises \<open>ValueError\<close>).
\<close>

definition process_video_state :: "video \<Rightarrow> int \<Rightarrow> int \<Rightarrow> int \<Rightarrow> py_error + state" where
  "process_video_state v sample_no frames_per_sample smoothing_window =
     (if total_frames v = 0 then Inr initial_state
      else if frames_per_sample = 0 then Inl ZeroDivisionError
      else
        (let frame_interval = max 1 (total_frames v div frames_per_sample);
             video_filename = basename (video_path v);
             dance = extract_dance_name video_filename VALID_DANCE_NAMES
         in if dance = ''unknown'' then Inr initial_state
            else if smoothing_window < 0 then Inl ValueError
            else sample_loop (opened v) frames_per_sample sample_no dance frame_interval
                   (nat smoothing_window) initial_state (frames v)))"

definition process_video :: "video \<Rightarrow> int \<Rightarrow> int \<Rightarrow> int \<Rightarrow> py_error + frame list" where
  "process_video v sample_no frames_per_sample smoothing_window =
     map_sum id data (process_video_state v sample_no frames_per_sample smoothing_window)"

subsection \<open>Concrete inputs\<close>

text \<open>
  Two poses of 33 landmarks each, and a four-frame video of the griddy in which the
  detector misses the third frame.
\<close>

definition example_pose_a :: "landmark list" where
  "example_pose_a = replicate 33 \<lparr>lm_x = 1, lm_y = 2, lm_z = 3, lm_visibility = 1 / 2\<rparr>"

definition example_pose_b :: "landmark list" where
  "example_pose_b = replicate 33 \<lparr>lm_x = 3, lm_y = 4, lm_z = 5, lm_visibility = 1\<rparr>"

definition example_video :: video where
  "example_video =
     \<lparr>video_path = ''sample_data/Griddy_1.mp4'', opened = True, total_frames = 4,
      frames = [Some example_pose_a, Some example_pose_b, None, Some example_pose_a]\<rparr>"

text \<open>A video whose name holds no dance, and one that reports no frames.\<close>

definition example_clip :: video where
  "example_clip =
     \<lparr>video_path = ''sample_data/clip001.mp4'', opened = True, total_frames = 4,
      frames = [Some example_pose_a, Some example_pose_b, None, Some example_pose_a]\<rparr>"

definition example_empty :: video where
  "example_empty =
     \<lparr>video_path = ''sample_data/floss_2.mp4'', opened = False, total_frames = 0,
      frames = []\<rparr>"

text \<open>Two frame dictionaries and a buffer of two vectors.\<close>

definition example_prev :: frame where
  "example_prev =
     \<lparr>sample_number = 7, frame_number = 4, dance_name = ''floss'',
      landmark_values = replicate 132 1\<rparr>"

definition example_next :: frame where
  "example_next =
     \<lparr>sample_number = 7, frame_number = 5, dance_name = ''floss'',
      landmark_values = replicate 132 3\<rparr>"

definition example_buffer :: "real list list" where
  "example_buffer = [replicate 132 1, replicate 132 3]"

text \<open>A loop state with two records, at a frame the detector is about to miss.\<close>

definition example_state :: state where
  "example_state =
     \<lparr>frame_count = 2, sampled_frames = 2, frame_buffer = [],
      data = [example_prev, example_next], reads = 3, submitted = [0, 1]\<rparr>"

section \<open>Properties\<close>

subsection \<open>The two numeric routines\<close>

lemma foldl_vec_add:
  "length acc = n \<Longrightarrow> \<forall>v \<in> set rs. length v = n \<Longrightarrow>
   foldl vec_add acc rs = map (\<lambda>j. acc ! j + (\<Sum>v\<leftarrow>rs. v ! j)) [0..<n]"
proof (induction rs arbitrary: acc)
  case Nil
  then show ?case by (auto intro: nth_equalityI)
next
  case (Cons r rs)
  have len: "length (vec_add acc r) = n"
    using Cons.prems by (simp add: vec_add_def)
  have "foldl vec_add (vec_add acc r) rs
        = map (\<lambda>j. vec_add acc r ! j + (\<Sum>v\<leftarrow>rs. v ! j)) [0..<n]"
    using Cons.IH [OF len] Cons.prems by simp
  also have "\<dots> = map (\<lambda>j. acc ! j + (\<Sum>v\<leftarrow>r # rs. v ! j)) [0..<n]"
    using Cons.prems by (simp add: vec_add_def add.assoc)
  finally show ?case by simp
qed

lemma slice_from_all:
  "int (length xs) \<le> w \<Longrightarrow> slice_from xs (- w) = xs"
  by (simp add: slice_from_def Let_def)

lemma np_mean_axis0_naive:
  assumes "rows \<noteq> []" "\<forall>v \<in> set rows. length v = 132"
  shows "np_mean_axis0 rows = Inr (naive_mean rows)"
proof -
  obtain r rs where rows: "rows = r # rs"
    using assms(1) by (cases rows) auto
  have "foldl vec_add r rs = map (\<lambda>j. r ! j + (\<Sum>v\<leftarrow>rs. v ! j)) [0..<132]"
    using assms(2) by (intro foldl_vec_add) (simp_all add: rows)
  then show ?thesis
    by (simp add: np_mean_axis0_def naive_mean_def rows)
qed

lemma smooth_landmarks_None_iff:
  "smooth_landmarks buffer w = Inr None \<longleftrightarrow> buffer = []"
  by (cases buffer) (auto simp: smooth_landmarks_def split: sum.splits)

lemma smooth_landmarks_naive:
  assumes "1 \<le> length buffer" "int (length buffer) \<le> w" "\<forall>v \<in> set buffer. length v = 132"
  shows "smooth_landmarks buffer w = Inr (Some (naive_mean buffer))"
proof -
  have ne: "buffer \<noteq> []" using assms(1) by auto
  have arr: "np_array buffer = Inr buffer"
    using assms(3) ne by (simp add: np_array_def)
  show ?thesis
    using ne by (simp add: smooth_landmarks_def arr slice_from_all [OF assms(2)]
        np_mean_axis0_naive [OF ne assms(3)])
qed

text \<open>
  Claim C3. \<open>smooth_landmarks\<close> returns no value exactly for the empty buffer, and for a
  buffer of \<open>n\<close> vectors of length 132 with \<open>1 \<le> n \<le> smoothing_window\<close> it returns the
  per-component sum divided by \<open>n\<close>.
\<close>

theorem smooth_landmarks_mean:
  "(smooth_landmarks buffer smoothing_window = Inr None \<longleftrightarrow> buffer = [])
   \<and> (1 \<le> length buffer \<and> int (length buffer) \<le> smoothing_window
        \<and> (\<forall>v \<in> set buffer. length v = 132)
      \<longrightarrow> smooth_landmarks buffer smoothing_window = Inr (Some (naive_mean buffer)))"
  using smooth_landmarks_None_iff smooth_landmarks_naive by blast

lemma interpolate_ok:
  assumes "132 \<le> length (landmark_values p)" "132 \<le> length (landmark_values q)"
  shows "interpolate_missing_frames p q n = Inr (map (interpolated_dict p q n) [1..n])"
  using assms by (simp add: interpolate_missing_frames_def)

text \<open>
  Claim C2. For frames that carry the 132 landmark keys and \<open>num_missing \<ge> 1\<close>,
  \<open>interpolate_missing_frames\<close> returns exactly \<open>num_missing\<close> frames; the \<open>i\<close>-th has, with
  \<open>r = i / (num_missing + 1)\<close>, every numeric field equal to \<open>(1 - r) * prev + r * next\<close>,
  the frame number \<open>frame_number prev_frame + i\<close>, and the sample number and dance name of
  \<open>prev_frame\<close>; with \<open>num_missing = 1\<close> every field is the midpoint of the two.
\<close>

theorem interpolate_missing_frames_contract:
  assumes "132 \<le> length (landmark_values prev_frame)"
    and "132 \<le> length (landmark_values next_frame)"
    and "1 \<le> num_missing"
  shows "\<exists>fs. interpolate_missing_frames prev_frame next_frame num_missing = Inr fs
    \<and> length fs = nat num_missing
    \<and> (\<forall>i. 1 \<le> i \<and> i \<le> num_missing \<longrightarrow>
          sample_number (fs ! nat (i - 1)) = sample_number prev_frame
        \<and> dance_name (fs ! nat (i - 1)) = dance_name prev_frame
        \<and> frame_number (fs ! nat (i - 1)) = frame_number prev_frame + i
        \<and> length (landmark_values (fs ! nat (i - 1))) = 132
        \<and> (\<forall>k<132. landmark_values (fs ! nat (i - 1)) ! k
               = (1 - real_of_int i / real_of_int (num_missing + 1))
                   * landmark_values prev_frame ! k
                 + real_of_int i / real_of_int (num_missing + 1)
                   * landmark_values next_frame ! k))
    \<and> (num_missing = 1 \<longrightarrow>
         (\<forall>k<132. landmark_values (fs ! 0) ! k
            = (landmark_values prev_frame ! k + landmark_values next_frame ! k) / 2))"
proof -
  let ?fs = "map (interpolated_dict prev_frame next_frame num_missing) [1..num_missing]"
  have res: "interpolate_missing_frames prev_frame next_frame num_missing = Inr ?fs"
    using assms(1,2) by (rule interpolate_ok)
  have len: "length ?fs = nat num_missing"
    by simp
  have nth: "?fs ! nat (i - 1) = interpolated_dict prev_frame next_frame num_missing i"
    if "1 \<le> i" "i \<le> num_missing" for i
  proof -
    have "[1..num_missing] ! nat (i - 1) = 1 + int (nat (i - 1))"
      using that by (intro nth_upto) simp
    moreover have "nat (i - 1) < length [1..num_missing]"
      using that by simp
    ultimately show ?thesis using that by simp
  qed
  have steps: "sample_number (?fs ! nat (i - 1)) = sample_number prev_frame
        \<and> dance_name (?fs ! nat (i - 1)) = dance_name prev_frame
        \<and> frame_number (?fs ! nat (i - 1)) = frame_number prev_frame + i
        \<and> length (landmark_values (?fs ! nat (i - 1))) = 132
        \<and> (\<forall>k<132. landmark_values (?fs ! nat (i - 1)) ! k
               = (1 - real_of_int i / real_of_int (num_missing + 1))
                   * landmark_values prev_frame ! k
                 + real_of_int i / real_of_int (num_missing + 1)
                   * landmark_values next_frame ! k)"
    if "1 \<le> i" "i \<le> num_missing" for i
    unfolding nth [OF that] by (simp add: interpolated_dict_def Let_def)
  have mid: "\<forall>k<132. landmark_values (?fs ! 0) ! k
            = (landmark_values prev_frame ! k + landmark_values next_frame ! k) / 2"
    if "num_missing = 1"
    using that by (simp add: interpolated_dict_def Let_def field_simps)
  show ?thesis
    using res len steps mid by blast
qed

subsection \<open>The loop body and the invariant rule\<close>

lemma deque_append_nonempty: "0 < w \<Longrightarrow> deque_append w buffer v \<noteq> []"
  by (simp add: deque_append_def)

lemma deque_append_set: "set (deque_append w buffer v) \<subseteq> insert v (set buffer)"
  using set_drop_subset [of "length buffer + 1 - w" "buffer @ [v]"]
  by (auto simp: deque_append_def)

lemma deque_append_length: "length (deque_append w buffer v) = min w (length buffer + 1)"
  by (simp add: deque_append_def)

lemma smoothed_dict_Inr:
  "smoothed_dict sn fn dn sm = Inr d \<Longrightarrow>
   sample_number d = sn \<and> frame_number d = fn \<and> dance_name d = dn
   \<and> length (landmark_values d) = 132 \<and> landmark_values d = take 132 sm"
  by (auto simp: smoothed_dict_def split: if_splits intro!: nth_equalityI)

text \<open>What a successful detection does to the loop state.\<close>

lemma on_detection_Inr:
  assumes "on_detection sn dn w lms st = Inr st'"
  shows "sampled_frames st' = sampled_frames st + 1 \<and> frame_count st' = frame_count st
    \<and> reads st' = reads st \<and> submitted st' = submitted st
    \<and> ((w = 0 \<and> data st' = data st)
       \<or> (0 < w \<and> (\<exists>d. data st' = data st @ [d] \<and> sample_number d = sn
             \<and> dance_name d = dn \<and> frame_number d = sampled_frames st + 1
             \<and> length (landmark_values d) = 132)))"
proof -
  obtain flat where flat:
    "flattened_landmarks (create_landmark_dict lms sn (sampled_frames st + 1) dn) = Inr flat"
    using assms by (auto simp: on_detection_def Let_def split: sum.splits)
  let ?buf = "deque_append w (frame_buffer st) flat"
  show ?thesis
  proof (cases "smooth_landmarks ?buf (int w)")
    case (Inl e)
    then show ?thesis using assms flat by (simp add: on_detection_def Let_def)
  next
    case (Inr r)
    show ?thesis
    proof (cases r)
      case None
      then have "?buf = []" using Inr smooth_landmarks_None_iff by blast
      then have "w = 0" using deque_append_nonempty [of w "frame_buffer st" flat] by auto
      then show ?thesis using assms flat Inr None by (auto simp: on_detection_def Let_def)
    next
      case (Some sm)
      then have "?buf \<noteq> []" using Inr smooth_landmarks_None_iff [of ?buf "int w"] by auto
      then have "0 < w" by (cases w) (auto simp: deque_append_def)
      then show ?thesis
        using assms flat Inr Some
        by (auto simp: on_detection_def Let_def split: sum.splits dest!: smoothed_dict_Inr)
    qed
  qed
qed

text \<open>What a failed detection does to the loop state.\<close>

lemma on_missing_Inr:
  assumes "on_missing st = Inr st'"
  shows "frame_count st' = frame_count st \<and> reads st' = reads st
    \<and> submitted st' = submitted st \<and> frame_buffer st' = frame_buffer st
    \<and> ((length (data st) < 2 \<and> st' = st)
       \<or> (2 \<le> length (data st) \<and> sampled_frames st' = sampled_frames st + 1
          \<and> (\<exists>d. data st' = data st @ [d]
               \<and> sample_number d = sample_number (data st ! (length (data st) - 2))
               \<and> dance_name d = dance_name (data st ! (length (data st) - 2))
               \<and> frame_number d = frame_number (data st ! (length (data st) - 2)) + 1
               \<and> length (landmark_values d) = 132)))"
  using assms
  by (auto simp: on_missing_def Let_def interpolate_missing_frames_def interpolated_dict_def
      split: if_splits)

text \<open>One pass of the loop body: the bookkeeping and the growth of \<open>data\<close>.\<close>

lemma process_frame_Inr:
  assumes "process_frame sn dn iv w r st = Inr st'"
  shows "frame_count st' = frame_count st + 1 \<and> reads st' = reads st
    \<and> submitted st' = (if int (frame_count st) mod iv = 0
                        then submitted st @ [frame_count st] else submitted st)
    \<and> ((data st' = data st
         \<and> (sampled_frames st' = sampled_frames st
            \<or> (w = 0 \<and> sampled_frames st' = sampled_frames st + 1)))
       \<or> (sampled_frames st' = sampled_frames st + 1
          \<and> (\<exists>d. data st' = data st @ [d] \<and> length (landmark_values d) = 132
               \<and> ((0 < w \<and> sample_number d = sn \<and> dance_name d = dn
                    \<and> frame_number d = sampled_frames st + 1)
                  \<or> (2 \<le> length (data st)
                     \<and> sample_number d = sample_number (data st ! (length (data st) - 2))
                     \<and> dance_name d = dance_name (data st ! (length (data st) - 2))
                     \<and> frame_number d
                         = frame_number (data st ! (length (data st) - 2)) + 1)))))"
proof (cases "int (frame_count st) mod iv = 0")
  case False
  then show ?thesis using assms by (auto simp: process_frame_def)
next
  case True
  let ?st1 = "st\<lparr>submitted := submitted st @ [frame_count st]\<rparr>"
  show ?thesis
  proof (cases r)
    case None
    then obtain st2 where st2: "on_missing ?st1 = Inr st2"
      and st': "st' = st2\<lparr>frame_count := frame_count st2 + 1\<rparr>"
      using assms True by (auto simp: process_frame_def Let_def split: sum.splits)
    show ?thesis
      using on_missing_Inr [OF st2] True unfolding st' by auto
  next
    case (Some lms)
    then obtain st2 where st2: "on_detection sn dn w lms ?st1 = Inr st2"
      and st': "st' = st2\<lparr>frame_count := frame_count st2 + 1\<rparr>"
      using assms True by (auto simp: process_frame_def Let_def split: sum.splits)
    show ?thesis
      using on_detection_Inr [OF st2] True unfolding st' by auto
  qed
qed

text \<open>
  An invariant of the loop: a property that holds at the start, that every pass of
  the body keeps while the loop condition holds, and that the failed read keeps,
  holds of the final state.
\<close>

lemma sample_loop_invariant:
  assumes "sample_loop opn K sn dn iv w st fs = Inr st'"
    and "P st"
    and body: "\<And>s r s'. P s \<Longrightarrow> opn \<Longrightarrow> sampled_frames s < K \<Longrightarrow>
           process_frame sn dn iv w r (s\<lparr>reads := reads s + 1\<rparr>) = Inr s' \<Longrightarrow> P s'"
    and last_read: "\<And>s. P s \<Longrightarrow> P (s\<lparr>reads := reads s + 1\<rparr>)"
  shows "P st'"
  using assms(1,2)
proof (induction fs arbitrary: st)
  case Nil
  then show ?case using last_read by (auto split: if_splits)
next
  case (Cons r rest)
  show ?case
  proof (cases "opn \<and> sampled_frames st < K")
    case False
    then show ?thesis using Cons.prems by auto
  next
    case True
    then obtain s' where s': "process_frame sn dn iv w r (st\<lparr>reads := reads st + 1\<rparr>) = Inr s'"
      and rest: "sample_loop opn K sn dn iv w s' rest = Inr st'"
      using Cons.prems(1) by (auto split: sum.splits)
    have "P s'" using body [OF Cons.prems(2) _ _ s'] True by simp
    then show ?thesis using Cons.IH [OF rest] by simp
  qed
qed

subsection \<open>Whole runs of process_video\<close>

lemma process_video_state_Inr:
  assumes "process_video_state v sn K w = Inr st"
  shows "(st = initial_state
          \<and> (total_frames v = 0
             \<or> extract_dance_name (basename (video_path v)) VALID_DANCE_NAMES = ''unknown''))
       \<or> (total_frames v \<noteq> 0 \<and> K \<noteq> 0 \<and> 0 \<le> w
          \<and> extract_dance_name (basename (video_path v)) VALID_DANCE_NAMES \<noteq> ''unknown''
          \<and> sample_loop (opened v) K sn
               (extract_dance_name (basename (video_path v)) VALID_DANCE_NAMES)
               (max 1 (total_frames v div K)) (nat w) initial_state (frames v) = Inr st)"
  using assms by (auto simp: process_video_state_def Let_def split: if_splits)

lemma process_video_data:
  "process_video_state v sn K w = Inr st \<Longrightarrow> process_video v sn K w = Inr (data st)"
  by (simp add: process_video_def)

lemma process_video_Inr:
  "process_video v sn K w = Inr d \<Longrightarrow>
   \<exists>st. process_video_state v sn K w = Inr st \<and> d = data st"
  by (cases "process_video_state v sn K w") (auto simp: process_video_def)

text \<open>Every record carries the sample number and the dance name of the run.\<close>

lemma sample_loop_metadata:
  assumes "sample_loop opn K sn dn iv w st fs = Inr st'"
    and "\<forall>f \<in> set (data st). sample_number f = sn \<and> dance_name f = dn"
  shows "\<forall>f \<in> set (data st'). sample_number f = sn \<and> dance_name f = dn"
proof (rule sample_loop_invariant
    [where P = "\<lambda>s. \<forall>f \<in> set (data s). sample_number f = sn \<and> dance_name f = dn",
      OF assms(1)])
  show "\<forall>f \<in> set (data st). sample_number f = sn \<and> dance_name f = dn"
    by (rule assms(2))
next
  fix s r s'
  assume inv: "\<forall>f \<in> set (data s). sample_number f = sn \<and> dance_name f = dn"
    and step: "process_frame sn dn iv w r (s\<lparr>reads := reads s + 1\<rparr>) = Inr s'"
  have "2 \<le> length (data s) \<Longrightarrow> data s ! (length (data s) - 2) \<in> set (data s)"
    by (intro nth_mem) simp
  then show "\<forall>f \<in> set (data s'). sample_number f = sn \<and> dance_name f = dn"
    using process_frame_Inr [OF step] inv by auto
next
  fix s :: state
  assume "\<forall>f \<in> set (data s). sample_number f = sn \<and> dance_name f = dn"
  then show "\<forall>f \<in> set (data (s\<lparr>reads := reads s + 1\<rparr>)). sample_number f = sn \<and> dance_name f = dn"
    by simp
qed

lemma process_video_state_metadata:
  assumes "process_video_state v sn K w = Inr st"
  shows "\<forall>f \<in> set (data st). sample_number f = sn
           \<and> dance_name f = extract_dance_name (basename (video_path v)) VALID_DANCE_NAMES
           \<and> dance_name f \<noteq> ''unknown''"
proof (cases "st = initial_state")
  case True
  then show ?thesis by (simp add: initial_state_def)
next
  case False
  then have ne: "extract_dance_name (basename (video_path v)) VALID_DANCE_NAMES \<noteq> ''unknown''"
    and loop: "sample_loop (opened v) K sn
               (extract_dance_name (basename (video_path v)) VALID_DANCE_NAMES)
               (max 1 (total_frames v div K)) (nat w) initial_state (frames v) = Inr st"
    using process_video_state_Inr [OF assms] by blast+
  show ?thesis
    using sample_loop_metadata [OF loop] ne by (simp add: initial_state_def)
qed

text \<open>
  Claim C9. Every record that \<open>process_video\<close> returns carries the sample number it was
  given and the dance name resolved from the file name, whether it came from a detection
  or from interpolation.
\<close>

theorem process_video_uniform_metadata:
  assumes "process_video v sample_no frames_per_sample smoothing_window = Inr records"
  shows "\<forall>f \<in> set records. sample_number f = sample_no
           \<and> dance_name f = extract_dance_name (basename (video_path v)) VALID_DANCE_NAMES"
proof -
  obtain st where "process_video_state v sample_no frames_per_sample smoothing_window = Inr st"
    and "records = data st"
    using process_video_Inr [OF assms] by blast
  then show ?thesis
    using process_video_state_metadata by blast
qed

text \<open>The length of the output against the counter of the loop.\<close>

lemma sample_loop_count:
  assumes "sample_loop opn K sn dn iv w st fs = Inr st'"
    and "int (length (data st)) \<le> sampled_frames st" "sampled_frames st \<le> K"
    and "0 < w \<longrightarrow> int (length (data st)) = sampled_frames st"
  shows "int (length (data st')) \<le> sampled_frames st' \<and> sampled_frames st' \<le> K
         \<and> (0 < w \<longrightarrow> int (length (data st')) = sampled_frames st')"
proof (rule sample_loop_invariant
    [where P = "\<lambda>s. int (length (data s)) \<le> sampled_frames s \<and> sampled_frames s \<le> K
         \<and> (0 < w \<longrightarrow> int (length (data s)) = sampled_frames s)", OF assms(1)])
  show "int (length (data st)) \<le> sampled_frames st \<and> sampled_frames st \<le> K
         \<and> (0 < w \<longrightarrow> int (length (data st)) = sampled_frames st)"
    using assms(2-4) by simp
next
  fix s r s'
  assume inv: "int (length (data s)) \<le> sampled_frames s \<and> sampled_frames s \<le> K
         \<and> (0 < w \<longrightarrow> int (length (data s)) = sampled_frames s)"
    and lt: "sampled_frames s < K"
    and step: "process_frame sn dn iv w r (s\<lparr>reads := reads s + 1\<rparr>) = Inr s'"
  show "int (length (data s')) \<le> sampled_frames s' \<and> sampled_frames s' \<le> K
         \<and> (0 < w \<longrightarrow> int (length (data s')) = sampled_frames s')"
    using process_frame_Inr [OF step] inv lt by auto
next
  fix s :: state
  assume "int (length (data s)) \<le> sampled_frames s \<and> sampled_frames s \<le> K
         \<and> (0 < w \<longrightarrow> int (length (data s)) = sampled_frames s)"
  then show "int (length (data (s\<lparr>reads := reads s + 1\<rparr>)))
           \<le> sampled_frames (s\<lparr>reads := reads s + 1\<rparr>)
         \<and> sampled_frames (s\<lparr>reads := reads s + 1\<rparr>) \<le> K
         \<and> (0 < w \<longrightarrow> int (length (data (s\<lparr>reads := reads s + 1\<rparr>)))
              = sampled_frames (s\<lparr>reads := reads s + 1\<rparr>))"
    by simp
qed

text \<open>
  How the loop ends: either its condition fails, and then every read delivered a
  frame, or the read after the last frame fails.
\<close>

lemma sample_loop_stop:
  assumes "sample_loop opn K sn dn iv w st fs = Inr st'"
    and "reads st = frame_count st"
  shows "(\<not> (opn \<and> sampled_frames st' < K) \<and> reads st' = frame_count st'
          \<and> frame_count st' \<le> frame_count st + length fs)
       \<or> (opn \<and> sampled_frames st' < K \<and> frame_count st' = frame_count st + length fs
          \<and> reads st' = frame_count st' + 1)"
  using assms
proof (induction fs arbitrary: st)
  case Nil
  then show ?case by (auto split: if_splits)
next
  case (Cons r rest)
  show ?case
  proof (cases "opn \<and> sampled_frames st < K")
    case False
    then show ?thesis using Cons.prems by auto
  next
    case True
    then obtain s' where s': "process_frame sn dn iv w r (st\<lparr>reads := reads st + 1\<rparr>) = Inr s'"
      and rest: "sample_loop opn K sn dn iv w s' rest = Inr st'"
      using Cons.prems(1) by (auto split: sum.splits)
    have "reads s' = frame_count s'" "frame_count s' = frame_count st + 1"
      using process_frame_Inr [OF s'] Cons.prems(2) by simp_all
    then show ?thesis using Cons.IH [OF rest] by auto
  qed
qed

text \<open>
  Claim C5. For \<open>total_frames \<ge> 1\<close> and a target \<open>K > 0\<close> the returned sequence has at most
  \<open>K\<close> records. When the video is open and its dance is known, the loop ends either with
  the counter at \<open>K\<close>, every read having delivered a frame (and, for a positive smoothing
  window, exactly \<open>K\<close> records), or with the counter below \<open>K\<close> at the read after the last
  frame.
\<close>

theorem process_video_length_bound:
  assumes "process_video_state v sample_no frames_per_sample smoothing_window = Inr st"
    and "1 \<le> total_frames v" and "0 < frames_per_sample"
  shows "process_video v sample_no frames_per_sample smoothing_window = Inr (data st)
    \<and> int (length (data st)) \<le> frames_per_sample
    \<and> (opened v
         \<and> extract_dance_name (basename (video_path v)) VALID_DANCE_NAMES \<noteq> ''unknown''
       \<longrightarrow> (sampled_frames st = frames_per_sample \<and> reads st = frame_count st
            \<and> (0 < smoothing_window \<longrightarrow> int (length (data st)) = frames_per_sample))
         \<or> (sampled_frames st < frames_per_sample \<and> frame_count st = length (frames v)
            \<and> reads st = length (frames v) + 1))"
proof (cases "st = initial_state
          \<and> (total_frames v = 0
             \<or> extract_dance_name (basename (video_path v)) VALID_DANCE_NAMES = ''unknown'')")
  case True
  then show ?thesis
    using assms by (auto simp: initial_state_def process_video_data)
next
  case False
  then have w: "0 \<le> smoothing_window"
    and loop: "sample_loop (opened v) frames_per_sample sample_no
               (extract_dance_name (basename (video_path v)) VALID_DANCE_NAMES)
               (max 1 (total_frames v div frames_per_sample)) (nat smoothing_window)
               initial_state (frames v) = Inr st"
    using process_video_state_Inr [OF assms(1)] by blast+
  have count: "int (length (data st)) \<le> sampled_frames st \<and> sampled_frames st \<le> frames_per_sample
         \<and> (0 < nat smoothing_window \<longrightarrow> int (length (data st)) = sampled_frames st)"
    using assms(3) by (intro sample_loop_count [OF loop]) (simp_all add: initial_state_def)
  have stop: "(\<not> (opened v \<and> sampled_frames st < frames_per_sample)
          \<and> reads st = frame_count st
          \<and> frame_count st \<le> frame_count initial_state + length (frames v))
       \<or> (opened v \<and> sampled_frames st < frames_per_sample
          \<and> frame_count st = frame_count initial_state + length (frames v)
          \<and> reads st = frame_count st + 1)"
    by (intro sample_loop_stop [OF loop]) (simp add: initial_state_def)
  show ?thesis
    using count stop w by (auto simp: initial_state_def process_video_data [OF assms(1)])
qed

text \<open>The positions handed to the detector.\<close>

lemma sample_loop_submitted:
  assumes "sample_loop opn K sn dn iv w st fs = Inr st'"
    and "submitted st = filter (\<lambda>p. int p mod iv = 0) [0..<frame_count st]"
  shows "submitted st' = filter (\<lambda>p. int p mod iv = 0) [0..<frame_count st']"
proof (rule sample_loop_invariant
    [where P = "\<lambda>s. submitted s = filter (\<lambda>p. int p mod iv = 0) [0..<frame_count s]",
      OF assms(1)])
  show "submitted st = filter (\<lambda>p. int p mod iv = 0) [0..<frame_count st]"
    by (rule assms(2))
next
  fix s r s'
  assume inv: "submitted s = filter (\<lambda>p. int p mod iv = 0) [0..<frame_count s]"
    and step: "process_frame sn dn iv w r (s\<lparr>reads := reads s + 1\<rparr>) = Inr s'"
  show "submitted s' = filter (\<lambda>p. int p mod iv = 0) [0..<frame_count s']"
    using process_frame_Inr [OF step] inv by simp
next
  fix s :: state
  assume "submitted s = filter (\<lambda>p. int p mod iv = 0) [0..<frame_count s]"
  then show "submitted (s\<lparr>reads := reads s + 1\<rparr>)
      = filter (\<lambda>p. int p mod iv = 0) [0..<frame_count (s\<lparr>reads := reads s + 1\<rparr>)]"
    by simp
qed

text \<open>
  Claim C6. The interval is \<open>max 1 (total_frames div frames_per_sample)\<close>, and a position is
  handed to the detector exactly when it was decoded and is \<open>0\<close> modulo the interval.
\<close>

theorem process_video_sampling_rule:
  assumes "process_video_state v sample_no frames_per_sample smoothing_window = Inr st"
  shows "frame_count st \<le> length (frames v)
    \<and> (\<forall>p. p \<in> set (submitted st) \<longleftrightarrow>
             p < frame_count st
             \<and> int p mod max 1 (total_frames v div frames_per_sample) = 0)"
proof (cases "st = initial_state")
  case True
  then show ?thesis by (simp add: initial_state_def)
next
  case False
  then have loop: "sample_loop (opened v) frames_per_sample sample_no
               (extract_dance_name (basename (video_path v)) VALID_DANCE_NAMES)
               (max 1 (total_frames v div frames_per_sample)) (nat smoothing_window)
               initial_state (frames v) = Inr st"
    using process_video_state_Inr [OF assms] by blast
  have "submitted st
        = filter (\<lambda>p. int p mod max 1 (total_frames v div frames_per_sample) = 0)
            [0..<frame_count st]"
    by (intro sample_loop_submitted [OF loop]) (simp add: initial_state_def)
  moreover have "frame_count st \<le> length (frames v)"
    using sample_loop_stop [OF loop] by (auto simp: initial_state_def)
  ultimately show ?thesis by auto
qed

text \<open>
  Claim C7. A video that reports no frames yields the empty sequence, with no read and no
  detector call.
\<close>

theorem process_video_zero_frames:
  assumes "total_frames v = 0"
  shows "process_video v sample_no frames_per_sample smoothing_window = Inr []
    \<and> (\<exists>st. process_video_state v sample_no frames_per_sample smoothing_window = Inr st
          \<and> reads st = 0 \<and> submitted st = [])"
  using assms by (simp add: process_video_def process_video_state_def initial_state_def)

lemma extract_dance_name_unknown:
  "\<forall>dance \<in> set valid_dances. \<not> sublist (lower dance) (lower filename) \<Longrightarrow>
   extract_dance_name filename valid_dances = ''unknown''"
  by (induction valid_dances) auto

lemma lower_VALID_DANCE_NAMES: "map lower VALID_DANCE_NAMES = VALID_DANCE_NAMES"
  by (simp add: VALID_DANCE_NAMES_def lower_def lower_char_def)

text \<open>
  Claim C8. No returned record carries \<open>''unknown''\<close>; and when the lowercased file name contains
  no vocabulary term (and the target count is not zero, where the interval's division
  raises first), the resolution yields \<open>''unknown''\<close> and the result is the empty sequence.
\<close>

theorem process_video_never_unknown:
  "(\<forall>records. process_video v sample_no frames_per_sample smoothing_window = Inr records
       \<longrightarrow> (\<forall>f \<in> set records. dance_name f \<noteq> ''unknown''))
   \<and> (frames_per_sample \<noteq> 0
        \<and> (\<forall>dance \<in> set VALID_DANCE_NAMES.
              \<not> sublist dance (lower (basename (video_path v))))
      \<longrightarrow> extract_dance_name (basename (video_path v)) VALID_DANCE_NAMES = ''unknown''
          \<and> process_video v sample_no frames_per_sample smoothing_window = Inr [])"
proof (intro conjI allI impI)
  fix records
  assume "process_video v sample_no frames_per_sample smoothing_window = Inr records"
  then obtain st where "process_video_state v sample_no frames_per_sample smoothing_window = Inr st"
    and "records = data st"
    using process_video_Inr by blast
  then show "\<forall>f \<in> set records. dance_name f \<noteq> ''unknown''"
    using process_video_state_metadata by blast
next
  assume h: "frames_per_sample \<noteq> 0
        \<and> (\<forall>dance \<in> set VALID_DANCE_NAMES.
              \<not> sublist dance (lower (basename (video_path v))))"
  have "\<forall>dance \<in> set VALID_DANCE_NAMES.
          \<not> sublist (lower dance) (lower (basename (video_path v)))"
  proof
    fix dance assume d: "dance \<in> set VALID_DANCE_NAMES"
    then have "lower dance \<in> set (map lower VALID_DANCE_NAMES)" by simp
    then have "lower dance \<in> set VALID_DANCE_NAMES"
      by (simp only: lower_VALID_DANCE_NAMES)
    then show "\<not> sublist (lower dance) (lower (basename (video_path v)))"
      using h by blast
  qed
  then show u: "extract_dance_name (basename (video_path v)) VALID_DANCE_NAMES = ''unknown''"
    by (rule extract_dance_name_unknown)
  show "process_video v sample_no frames_per_sample smoothing_window = Inr []"
    using h u by (simp add: process_video_def process_video_state_def initial_state_def)
qed

subsection \<open>Raw values and the buffer of one vector\<close>

lemma length_flat: "length (concat (map (\<lambda>l. [lm_x l, lm_y l, lm_z l, lm_visibility l]) lms)) = 4 * length lms"
  by (induction lms) auto

lemma flat_nth:
  "idx < length lms \<Longrightarrow>
   concat (map (\<lambda>l. [lm_x l, lm_y l, lm_z l, lm_visibility l]) lms) ! (4 * idx) = lm_x (lms ! idx)
   \<and> concat (map (\<lambda>l. [lm_x l, lm_y l, lm_z l, lm_visibility l]) lms) ! (4 * idx + 1) = lm_y (lms ! idx)
   \<and> concat (map (\<lambda>l. [lm_x l, lm_y l, lm_z l, lm_visibility l]) lms) ! (4 * idx + 2) = lm_z (lms ! idx)
   \<and> concat (map (\<lambda>l. [lm_x l, lm_y l, lm_z l, lm_visibility l]) lms) ! (4 * idx + 3) = lm_visibility (lms ! idx)"
proof (induction lms arbitrary: idx)
  case Nil
  then show ?case by simp
next
  case (Cons l lms)
  show ?case
  proof (cases idx)
    case 0
    then show ?thesis by simp
  next
    case (Suc k)
    then have k: "k < length lms" using Cons.prems by simp
    have e: "4 * idx = Suc (Suc (Suc (Suc (4 * k))))" using Suc by simp
    show ?thesis using Cons.IH [OF k] Suc unfolding e by (simp add: add.commute)
  qed
qed

lemma flattened_landmarks_ok:
  assumes "33 \<le> length lms"
  shows "flattened_landmarks (create_landmark_dict lms sn fn dn)
         = Inr (take 132 (concat (map (\<lambda>l. [lm_x l, lm_y l, lm_z l, lm_visibility l]) lms)))"
  using assms by (simp add: flattened_landmarks_def create_landmark_dict_def length_flat)

lemma flattened_landmarks_Inr:
  assumes "flattened_landmarks (create_landmark_dict lms sn fn dn) = Inr flat"
  shows "33 \<le> length lms \<and> length flat = 132
    \<and> flat = take 132 (concat (map (\<lambda>l. [lm_x l, lm_y l, lm_z l, lm_visibility l]) lms))"
  using assms
  by (auto simp: flattened_landmarks_def create_landmark_dict_def length_flat split: if_splits)

lemma deque_append_single:
  assumes "0 < w" "buffer = [] \<or> w = 1"
  shows "deque_append w buffer v = [v]"
  using assms by (auto simp: deque_append_def)

lemma smooth_landmarks_single:
  assumes "0 < w"
  shows "smooth_landmarks [v] (int w) = Inr (Some v)"
  using assms
  by (simp add: smooth_landmarks_def np_array_def slice_from_def np_mean_axis0_def)

lemma smoothed_dict_ok:
  assumes "length sm = 132"
  shows "smoothed_dict sn fn dn sm
         = Inr \<lparr>sample_number = sn, frame_number = fn, dance_name = dn, landmark_values = sm\<rparr>"
proof -
  have "map (\<lambda>k. sm ! k) [0..<132] = sm"
    using map_nth [of sm] assms by simp
  then show ?thesis using assms by (simp add: smoothed_dict_def)
qed

text \<open>The detection branch when the buffer holds one vector after the push.\<close>

lemma on_detection_single:
  assumes "0 < w" "frame_buffer st = [] \<or> w = 1" "33 \<le> length lms"
  shows "on_detection sn dn w lms st =
     Inr (st\<lparr>frame_buffer :=
                [take 132 (concat (map (\<lambda>l. [lm_x l, lm_y l, lm_z l, lm_visibility l]) lms))],
             data := data st @
                [\<lparr>sample_number = sn, frame_number = sampled_frames st + 1, dance_name = dn,
                  landmark_values =
                    take 132 (concat (map (\<lambda>l. [lm_x l, lm_y l, lm_z l, lm_visibility l]) lms))\<rparr>],
             sampled_frames := sampled_frames st + 1\<rparr>)"
proof -
  let ?flat = "take 132 (concat (map (\<lambda>l. [lm_x l, lm_y l, lm_z l, lm_visibility l]) lms))"
  have len: "length ?flat = 132" using assms(3) by (simp add: length_flat)
  show ?thesis
    by (simp add: on_detection_def Let_def flattened_landmarks_ok [OF assms(3)]
        deque_append_single [OF assms(1,2)] smooth_landmarks_single [OF assms(1)]
        smoothed_dict_ok [OF len])
qed

lemma sample_loop_data_prefix:
  assumes "sample_loop opn K sn dn iv w st fs = Inr st'"
  shows "prefix (data st) (data st')"
proof (rule sample_loop_invariant [where P = "\<lambda>s. prefix (data st) (data s)", OF assms])
  show "prefix (data st) (data st)" by simp
next
  fix s r s'
  assume "prefix (data st) (data s)"
    and "process_frame sn dn iv w r (s\<lparr>reads := reads s + 1\<rparr>) = Inr s'"
  then show "prefix (data st) (data s')"
    using process_frame_Inr [of sn dn iv w r "s\<lparr>reads := reads s + 1\<rparr>" s']
    by (auto simp: prefix_def)
next
  fix s :: state
  assume "prefix (data st) (data s)"
  then show "prefix (data st) (data (s\<lparr>reads := reads s + 1\<rparr>))" by simp
qed

subsection \<open>Runs on the concrete inputs\<close>

lemma example_video_run:
  "map_sum id (\<lambda>s. (length (data s), reads s, submitted s, frame_count s, sampled_frames s))
     (process_video_state example_video 7 96 5) = Inr (4, 5, [0, 1, 2, 3], 4, 4)"
  by code_simp

lemma example_video_state:
  "\<exists>st. process_video_state example_video 7 96 5 = Inr st \<and> length (data st) = 4
      \<and> reads st = 5 \<and> submitted st = [0, 1, 2, 3] \<and> frame_count st = 4"
  using example_video_run by (cases "process_video_state example_video 7 96 5") auto

text \<open>
  Claim C1. On the four-frame example, where the detector misses the third frame, the
  frame numbers of the returned records are \<open>1, 2, 2, 4\<close>: the interpolated record repeats
  the number 2 and the number 3 never occurs.
\<close>

theorem process_video_frame_numbers_example:
  "map_sum id (map frame_number) (process_video example_video 7 96 5) = Inr [1, 2, 2, 4]"
  by code_simp

theorem interpolate_missing_frames_contract_witness:
  "132 \<le> length (landmark_values example_prev)
   \<and> 132 \<le> length (landmark_values example_next) \<and> (1::int) \<le> 1
   \<and> (\<exists>fs. interpolate_missing_frames example_prev example_next 1 = Inr fs
         \<and> length fs = 1 \<and> frame_number (fs ! 0) = 5 \<and> dance_name (fs ! 0) = ''floss''
         \<and> landmark_values (fs ! 0) ! 0 = 2)"
proof -
  have h1: "132 \<le> length (landmark_values example_prev)"
    and h2: "132 \<le> length (landmark_values example_next)"
    by (simp_all add: example_prev_def example_next_def)
  have h3: "(1::int) \<le> 1" by simp
  obtain fs where fs: "interpolate_missing_frames example_prev example_next 1 = Inr fs"
    "length fs = nat 1"
    "\<forall>i. 1 \<le> i \<and> i \<le> 1 \<longrightarrow>
        sample_number (fs ! nat (i - 1)) = sample_number example_prev
        \<and> dance_name (fs ! nat (i - 1)) = dance_name example_prev
        \<and> frame_number (fs ! nat (i - 1)) = frame_number example_prev + i
        \<and> length (landmark_values (fs ! nat (i - 1))) = 132
        \<and> (\<forall>k<132. landmark_values (fs ! nat (i - 1)) ! k
               = (1 - real_of_int i / real_of_int (1 + 1)) * landmark_values example_prev ! k
                 + real_of_int i / real_of_int (1 + 1) * landmark_values example_next ! k)"
    "(1::int) = 1 \<longrightarrow>
         (\<forall>k<132. landmark_values (fs ! 0) ! k
            = (landmark_values example_prev ! k + landmark_values example_next ! k) / 2)"
    using interpolate_missing_frames_contract [OF h1 h2 h3] by blast
  have a: "frame_number (fs ! 0) = 5 \<and> dance_name (fs ! 0) = ''floss''"
    using fs(3) [rule_format, of 1] by (simp add: example_prev_def)
  have "landmark_values (fs ! 0) ! 0
        = (landmark_values example_prev ! 0 + landmark_values example_next ! 0) / 2"
    using fs(4) by simp
  then have b: "landmark_values (fs ! 0) ! 0 = 2"
    by (simp add: example_prev_def example_next_def)
  show ?thesis using h1 h2 fs(1,2) a b by auto
qed

theorem smooth_landmarks_mean_witness:
  "1 \<le> length example_buffer \<and> int (length example_buffer) \<le> 5
   \<and> map length example_buffer = [132, 132]
   \<and> smooth_landmarks example_buffer 5 = Inr (Some (naive_mean example_buffer))
   \<and> naive_mean example_buffer ! 0 = 2"
proof -
  have h: "1 \<le> length example_buffer \<and> int (length example_buffer) \<le> 5
      \<and> (\<forall>v \<in> set example_buffer. length v = 132)"
    by (simp add: example_buffer_def)
  have m: "naive_mean example_buffer ! 0 = 2"
    by (simp add: naive_mean_def example_buffer_def)
  have l: "map length example_buffer = [132, 132]"
    by (simp add: example_buffer_def)
  show ?thesis
    using smooth_landmarks_mean [of example_buffer 5] h m l by blast
qed

theorem process_video_uniform_metadata_witness:
  "\<exists>records. process_video example_video 7 96 5 = Inr records \<and> length records = 4
     \<and> (\<forall>f \<in> set records. sample_number f = 7 \<and> dance_name f = ''griddy'')"
proof -
  obtain st where st: "process_video_state example_video 7 96 5 = Inr st"
    and len: "length (data st) = 4"
    using example_video_state by blast
  have run: "process_video example_video 7 96 5 = Inr (data st)"
    using st by (rule process_video_data)
  have name: "extract_dance_name (basename (video_path example_video)) VALID_DANCE_NAMES
              = ''griddy''"
    by code_simp
  show ?thesis
    using process_video_uniform_metadata [OF run] run len name by auto
qed

theorem process_video_length_bound_witness:
  "\<exists>st. process_video_state example_video 7 96 5 = Inr st
     \<and> 1 \<le> total_frames example_video \<and> (0::int) < 96
     \<and> process_video example_video 7 96 5 = Inr (data st)
     \<and> int (length (data st)) \<le> 96 \<and> length (data st) = 4"
proof -
  obtain st where st: "process_video_state example_video 7 96 5 = Inr st"
    and len: "length (data st) = 4"
    using example_video_state by blast
  have h2: "1 \<le> total_frames example_video" by (simp add: example_video_def)
  have h3: "(0::int) < 96" by simp
  show ?thesis
    using process_video_length_bound [OF st h2 h3] st len h2 by auto
qed

theorem process_video_sampling_rule_witness:
  "\<exists>st. process_video_state example_video 7 96 5 = Inr st
     \<and> frame_count st = 4
     \<and> (\<forall>p. p \<in> set (submitted st) \<longleftrightarrow>
               p < 4 \<and> int p mod max 1 (total_frames example_video div 96) = 0)"
proof -
  obtain st where st: "process_video_state example_video 7 96 5 = Inr st"
    and fc: "frame_count st = 4"
    using example_video_state by blast
  show ?thesis
    using process_video_sampling_rule [OF st] st fc by auto
qed

theorem process_video_zero_frames_witness:
  "total_frames example_empty = 0 \<and> process_video example_empty 7 96 5 = Inr []"
proof -
  have h: "total_frames example_empty = 0" by (simp add: example_empty_def)
  show ?thesis using process_video_zero_frames [OF h, of 7 96 5] h by simp
qed

theorem process_video_never_unknown_witness:
  "(96::int) \<noteq> 0
   \<and> filter (\<lambda>dance. sublist dance (lower (basename (video_path example_clip))))
         VALID_DANCE_NAMES = []
   \<and> extract_dance_name (basename (video_path example_clip)) VALID_DANCE_NAMES = ''unknown''
   \<and> process_video example_clip 7 96 5 = Inr []"
proof -
  have h: "\<forall>dance \<in> set VALID_DANCE_NAMES.
         \<not> sublist dance (lower (basename (video_path example_clip)))"
    by code_simp
  then have f: "filter (\<lambda>dance. sublist dance (lower (basename (video_path example_clip))))
         VALID_DANCE_NAMES = []"
    by (simp add: filter_empty_conv)
  show ?thesis
    using process_video_never_unknown [of example_clip 7 96 5] h f by simp
qed

subsection \<open>The loop body, case by case\<close>

lemma process_frame_skip:
  "int (frame_count st) mod iv \<noteq> 0 \<Longrightarrow>
   process_frame sn dn iv w r st = Inr (st\<lparr>frame_count := frame_count st + 1\<rparr>)"
  by (simp add: process_frame_def)

lemma process_frame_missing_few:
  "int (frame_count st) mod iv = 0 \<Longrightarrow> length (data st) < 2 \<Longrightarrow>
   process_frame sn dn iv w None st
   = Inr (st\<lparr>submitted := submitted st @ [frame_count st],
             frame_count := frame_count st + 1\<rparr>)"
  by (simp add: process_frame_def on_missing_def Let_def)

lemma process_frame_missing_interpolated:
  assumes "int (frame_count st) mod iv = 0" "2 \<le> length (data st)"
    and "interpolate_missing_frames (data st ! (length (data st) - 2))
           (data st ! (length (data st) - 1)) 1 = Inr fs"
  shows "process_frame sn dn iv w None st
   = Inr (st\<lparr>submitted := submitted st @ [frame_count st], data := data st @ fs,
             sampled_frames := sampled_frames st + 1,
             frame_count := frame_count st + 1\<rparr>)"
  using assms by (simp add: process_frame_def on_missing_def Let_def)

lemma process_frame_detect_single:
  assumes "int (frame_count st) mod iv = 0" "0 < w" "frame_buffer st = [] \<or> w = 1"
    "33 \<le> length lms"
  shows "process_frame sn dn iv w (Some lms) st
   = Inr (st\<lparr>submitted := submitted st @ [frame_count st],
             frame_buffer :=
                [take 132 (concat (map (\<lambda>l. [lm_x l, lm_y l, lm_z l, lm_visibility l]) lms))],
             data := data st @
                [\<lparr>sample_number = sn, frame_number = sampled_frames st + 1, dance_name = dn,
                  landmark_values =
                    take 132 (concat (map (\<lambda>l. [lm_x l, lm_y l, lm_z l, lm_visibility l]) lms))\<rparr>],
             sampled_frames := sampled_frames st + 1,
             frame_count := frame_count st + 1\<rparr>)"
proof -
  let ?st1 = "st\<lparr>submitted := submitted st @ [frame_count st]\<rparr>"
  have b: "frame_buffer ?st1 = [] \<or> w = 1" using assms(3) by simp
  show ?thesis
    using assms(1)
    by (simp add: process_frame_def Let_def on_detection_single [OF assms(2) b assms(4)])
qed

lemma on_detection_few_landmarks:
  "length lms < 33 \<Longrightarrow> on_detection sn dn w lms st = Inl KeyError"
  by (simp add: on_detection_def Let_def flattened_landmarks_def create_landmark_dict_def
      length_flat)

lemma process_frame_few_landmarks:
  "int (frame_count st) mod iv = 0 \<Longrightarrow> length lms < 33 \<Longrightarrow>
   process_frame sn dn iv w (Some lms) st = Inl KeyError"
  by (simp add: process_frame_def Let_def on_detection_few_landmarks)

subsection \<open>The first record of a run\<close>

text \<open>With a window of zero the deque stays empty and no record is ever built.\<close>

lemma sample_loop_no_window:
  assumes "sample_loop opn K sn dn iv 0 st fs = Inr st'" "data st = []"
  shows "data st' = []"
proof (rule sample_loop_invariant [where P = "\<lambda>s. data s = []", OF assms(1)])
  show "data st = []" by (rule assms(2))
next
  fix s r s'
  assume "data s = []"
    and "process_frame sn dn iv 0 r (s\<lparr>reads := reads s + 1\<rparr>) = Inr s'"
  then show "data s' = []"
    using process_frame_Inr [of sn dn iv 0 r "s\<lparr>reads := reads s + 1\<rparr>" s'] by auto
next
  fix s :: state
  assume "data s = []"
  then show "data (s\<lparr>reads := reads s + 1\<rparr>) = []" by simp
qed

text \<open>
  The first record of a run that starts with no record and an empty buffer comes
  from the first submitted frame with a pose, and carries its raw values.
\<close>

lemma sample_loop_first_record:
  assumes "sample_loop opn K sn dn iv w st fs = Inr st'"
    and "data st = []" "frame_buffer st = []" "data st' = d # ds" "0 < w"
  shows "\<exists>k lms. k < length fs \<and> fs ! k = Some lms
      \<and> int (frame_count st + k) mod iv = 0
      \<and> (\<forall>j<k. int (frame_count st + j) mod iv = 0 \<longrightarrow> fs ! j = None)
      \<and> 33 \<le> length lms
      \<and> landmark_values d
          = take 132 (concat (map (\<lambda>l. [lm_x l, lm_y l, lm_z l, lm_visibility l]) lms))"
  using assms(1-4)
proof (induction fs arbitrary: st)
  case Nil
  then show ?case by (auto split: if_splits)
next
  case (Cons r rest)
  have run: "opn \<and> sampled_frames st < K"
    using Cons.prems(1,2,4) by (auto split: if_splits)
  let ?st0 = "st\<lparr>reads := reads st + 1\<rparr>"
  obtain s' where s': "process_frame sn dn iv w r ?st0 = Inr s'"
    and rest: "sample_loop opn K sn dn iv w s' rest = Inr st'"
    using Cons.prems(1) run by (auto split: sum.splits)
  have fc: "frame_count s' = frame_count st + 1"
    using process_frame_Inr [OF s'] by simp
  have sel0: "int (frame_count ?st0) mod iv = 0 \<longleftrightarrow> int (frame_count st) mod iv = 0"
    by simp
  show ?case
  proof (cases "int (frame_count st) mod iv = 0 \<and> r \<noteq> None")
    case True
    then obtain lms where r: "r = Some lms" by auto
    have sel: "int (frame_count ?st0) mod iv = 0" using True by simp
    have l33: "33 \<le> length lms"
    proof (rule ccontr)
      assume "\<not> 33 \<le> length lms"
      then have "length lms < 33" by simp
      from process_frame_few_landmarks [OF sel this, of sn dn w]
      show False using s' r by simp
    qed
    have b: "frame_buffer ?st0 = [] \<or> w = 1" using Cons.prems(3) by simp
    have "data s' = data ?st0 @
        [\<lparr>sample_number = sn, frame_number = sampled_frames ?st0 + 1, dance_name = dn,
          landmark_values =
            take 132 (concat (map (\<lambda>l. [lm_x l, lm_y l, lm_z l, lm_visibility l]) lms))\<rparr>]"
      using process_frame_detect_single [OF sel assms(5) b l33, of sn dn] s' r by auto
    then have ds': "data s' =
        [\<lparr>sample_number = sn, frame_number = sampled_frames st + 1, dance_name = dn,
          landmark_values =
            take 132 (concat (map (\<lambda>l. [lm_x l, lm_y l, lm_z l, lm_visibility l]) lms))\<rparr>]"
      using Cons.prems(2) by simp
    have "prefix (data s') (data st')"
      using rest by (rule sample_loop_data_prefix)
    then have "landmark_values d
        = take 132 (concat (map (\<lambda>l. [lm_x l, lm_y l, lm_z l, lm_visibility l]) lms))"
      unfolding ds' Cons.prems(4) by (auto simp: prefix_def)
    then show ?thesis
      using True r l33 by (intro exI [of _ 0] exI [of _ lms]) simp
  next
    case False
    have keep: "data s' = [] \<and> frame_buffer s' = []"
    proof (cases "int (frame_count st) mod iv = 0")
      case True
      then have rn: "r = None" using False by simp
      have few: "length (data ?st0) < 2" using Cons.prems(2) by simp
      have sel: "int (frame_count ?st0) mod iv = 0" using True by simp
      show ?thesis
        using process_frame_missing_few [OF sel few, of sn dn w] s' rn Cons.prems(2,3)
        by auto
    next
      case nsel: False
      then have "int (frame_count ?st0) mod iv \<noteq> 0" by simp
      from process_frame_skip [OF this, of sn dn w r]
      show ?thesis using s' Cons.prems(2,3) by auto
    qed
    obtain k lms where k: "k < length rest" "rest ! k = Some lms"
      "int (frame_count s' + k) mod iv = 0"
      "\<forall>j<k. int (frame_count s' + j) mod iv = 0 \<longrightarrow> rest ! j = None"
      "33 \<le> length lms"
      "landmark_values d
          = take 132 (concat (map (\<lambda>l. [lm_x l, lm_y l, lm_z l, lm_visibility l]) lms))"
    proof -
      have ih: "\<exists>k lms. k < length rest \<and> rest ! k = Some lms
          \<and> int (frame_count s' + k) mod iv = 0
          \<and> (\<forall>j<k. int (frame_count s' + j) mod iv = 0 \<longrightarrow> rest ! j = None)
          \<and> 33 \<le> length lms
          \<and> landmark_values d
              = take 132 (concat (map (\<lambda>l. [lm_x l, lm_y l, lm_z l, lm_visibility l]) lms))"
        by (rule Cons.IH [OF rest _ _ Cons.prems(4)]) (simp_all add: keep)
      assume "\<And>k lms. \<lbrakk>k < length rest; rest ! k = Some lms;
          int (frame_count s' + k) mod iv = 0;
          \<forall>j<k. int (frame_count s' + j) mod iv = 0 \<longrightarrow> rest ! j = None;
          33 \<le> length lms;
          landmark_values d
              = take 132 (concat (map (\<lambda>l. [lm_x l, lm_y l, lm_z l, lm_visibility l]) lms))\<rbrakk>
         \<Longrightarrow> thesis"
      then show thesis using ih by (elim exE conjE) 
    qed
    have first: "\<forall>j<Suc k. int (frame_count st + j) mod iv = 0 \<longrightarrow> (r # rest) ! j = None"
    proof (intro allI impI)
      fix j assume j: "j < Suc k" and m: "int (frame_count st + j) mod iv = 0"
      show "(r # rest) ! j = None"
      proof (cases j)
        case 0
        then show ?thesis using False m by simp
      next
        case (Suc i)
        have lt: "i < k" using j Suc by simp
        have md: "int (frame_count s' + i) mod iv = 0"
          using m Suc fc by (simp add: add.commute add.left_commute)
        have "rest ! i = None"
          by (rule k(4) [rule_format, OF lt md])
        moreover have "(r # rest) ! j = rest ! i"
          unfolding Suc by (rule nth_Cons_Suc)
        ultimately show ?thesis by (simp only:)
      qed
    qed
    have sel: "int (frame_count st + Suc k) mod iv = 0"
      using k(3) fc by (simp add: add.commute add.left_commute)
    have a: "Suc k < length (r # rest)" using k(1) by simp
    have b: "(r # rest) ! Suc k = Some lms" using k(2) by simp
    show ?thesis
      by (rule exI [of _ "Suc k"], rule exI [of _ lms]) (intro conjI a b sel first k(5) k(6))
  qed
qed

text \<open>
  Claim C4. A submitted frame without a pose: with fewer than two records the state keeps its
  records and its counter and nothing is raised; with at least two, the frames that
  \<open>interpolate_missing_frames\<close> returns for the last two records and \<open>num_missing = 1\<close> are
  appended and the counter grows by one.
\<close>

theorem process_frame_missing_detection:
  assumes "int (frame_count st) mod frame_interval = 0"
  shows "(length (data st) < 2 \<longrightarrow>
          (\<exists>st'. process_frame sample_no dance frame_interval smoothing_window None st = Inr st'
             \<and> data st' = data st \<and> sampled_frames st' = sampled_frames st))
    \<and> (2 \<le> length (data st) \<longrightarrow>
          (\<forall>fs. interpolate_missing_frames (data st ! (length (data st) - 2))
                   (data st ! (length (data st) - 1)) 1 = Inr fs \<longrightarrow>
             (\<exists>st'. process_frame sample_no dance frame_interval smoothing_window None st
                      = Inr st'
                \<and> data st' = data st @ fs
                \<and> sampled_frames st' = sampled_frames st + 1)))
    \<and> (2 \<le> length (data st) \<and> (\<forall>f \<in> set (data st). 132 \<le> length (landmark_values f)) \<longrightarrow>
          (\<exists>fs. interpolate_missing_frames (data st ! (length (data st) - 2))
                   (data st ! (length (data st) - 1)) 1 = Inr fs \<and> length fs = 1))"
proof (intro conjI impI allI)
  assume "length (data st) < 2"
  from process_frame_missing_few [OF assms this, of sample_no dance smoothing_window]
  show "\<exists>st'. process_frame sample_no dance frame_interval smoothing_window None st = Inr st'
             \<and> data st' = data st \<and> sampled_frames st' = sampled_frames st"
    by simp
next
  fix fs
  assume "2 \<le> length (data st)"
    and "interpolate_missing_frames (data st ! (length (data st) - 2))
                   (data st ! (length (data st) - 1)) 1 = Inr fs"
  from process_frame_missing_interpolated [OF assms this, of sample_no dance smoothing_window]
  show "\<exists>st'. process_frame sample_no dance frame_interval smoothing_window None st = Inr st'
                \<and> data st' = data st @ fs
                \<and> sampled_frames st' = sampled_frames st + 1"
    by simp
next
  assume h: "2 \<le> length (data st) \<and> (\<forall>f \<in> set (data st). 132 \<le> length (landmark_values f))"
  then have "2 \<le> length (data st)" by simp
  then have "length (data st) - 2 < length (data st)"
    and "length (data st) - 1 < length (data st)"
    by arith+
  then have "data st ! (length (data st) - 2) \<in> set (data st)"
    and "data st ! (length (data st) - 1) \<in> set (data st)"
    by simp_all
  then have "132 \<le> length (landmark_values (data st ! (length (data st) - 2)))"
    and "132 \<le> length (landmark_values (data st ! (length (data st) - 1)))"
    using h by blast+
  then show "\<exists>fs. interpolate_missing_frames (data st ! (length (data st) - 2))
                   (data st ! (length (data st) - 1)) 1 = Inr fs \<and> length fs = 1"
    by (simp add: interpolate_ok)
qed

theorem process_frame_missing_detection_witness:
  "int (frame_count example_state) mod 1 = 0
   \<and> (\<exists>fs st'. interpolate_missing_frames example_prev example_next 1 = Inr fs
         \<and> process_frame 7 ''floss'' 1 5 None example_state = Inr st'
         \<and> data st' = [example_prev, example_next] @ fs
         \<and> length fs = 1 \<and> sampled_frames st' = 3)"
proof -
  have h: "int (frame_count example_state) mod 1 = 0" by simp
  have d: "data example_state = [example_prev, example_next]"
    and c: "sampled_frames example_state = 2"
    by (simp_all add: example_state_def)
  have p: "data example_state ! (length (data example_state) - 2) = example_prev"
    and n: "data example_state ! (length (data example_state) - 1) = example_next"
    by (simp_all add: d)
  have l: "2 \<le> length (data example_state)
      \<and> (\<forall>f \<in> set (data example_state). 132 \<le> length (landmark_values f))"
    by (simp add: d example_prev_def example_next_def)
  note t = process_frame_missing_detection [OF h, of 7 "''floss''" 5]
  from t l obtain fs where fs: "interpolate_missing_frames example_prev example_next 1 = Inr fs"
    "length fs = 1"
    unfolding p n by blast
  from t fs(1) l obtain st' where
    "process_frame 7 ''floss'' 1 5 None example_state = Inr st'"
    "data st' = data example_state @ fs" "sampled_frames st' = sampled_frames example_state + 1"
    unfolding p n by blast
  then show ?thesis using h fs d c by auto
qed

text \<open>
  Claim C10. The first record of a run holds the raw values of the first submitted frame with a
  pose: the buffer holds that one vector, and its mean is the vector itself.
\<close>

theorem first_detection_is_raw:
  assumes "process_video v sample_no frames_per_sample smoothing_window = Inr (d # ds)"
  shows "\<exists>p lms. p < length (frames v) \<and> frames v ! p = Some lms
      \<and> int p mod max 1 (total_frames v div frames_per_sample) = 0
      \<and> (\<forall>q<p. int q mod max 1 (total_frames v div frames_per_sample) = 0
                 \<longrightarrow> frames v ! q = None)
      \<and> (\<forall>idx<33. landmark_values d ! (4 * idx) = lm_x (lms ! idx)
                   \<and> landmark_values d ! (4 * idx + 1) = lm_y (lms ! idx)
                   \<and> landmark_values d ! (4 * idx + 2) = lm_z (lms ! idx)
                   \<and> landmark_values d ! (4 * idx + 3) = lm_visibility (lms ! idx))"
proof -
  obtain st where st: "process_video_state v sample_no frames_per_sample smoothing_window = Inr st"
    and dst: "data st = d # ds"
    using process_video_Inr [OF assms] by auto
  have "st \<noteq> initial_state" using dst by (auto simp: initial_state_def)
  then have w0: "0 \<le> smoothing_window"
    and loop: "sample_loop (opened v) frames_per_sample sample_no
               (extract_dance_name (basename (video_path v)) VALID_DANCE_NAMES)
               (max 1 (total_frames v div frames_per_sample)) (nat smoothing_window)
               initial_state (frames v) = Inr st"
    using process_video_state_Inr [OF st] by blast+
  have e: "data initial_state = []" "frame_buffer initial_state = []"
    "frame_count initial_state = 0"
    by (simp_all add: initial_state_def)
  have wpos: "0 < nat smoothing_window"
  proof (rule ccontr)
    assume "\<not> 0 < nat smoothing_window"
    then have "nat smoothing_window = 0" by simp
    then have "data st = []"
      using sample_loop_no_window [OF _ e(1)] loop by metis
    then show False using dst by simp
  qed
  obtain p lms where p: "p < length (frames v)" "frames v ! p = Some lms"
    "int (frame_count initial_state + p) mod max 1 (total_frames v div frames_per_sample) = 0"
    "\<forall>j<p. int (frame_count initial_state + j)
              mod max 1 (total_frames v div frames_per_sample) = 0 \<longrightarrow> frames v ! j = None"
    "33 \<le> length lms"
    "landmark_values d
       = take 132 (concat (map (\<lambda>l. [lm_x l, lm_y l, lm_z l, lm_visibility l]) lms))"
    using sample_loop_first_record [OF loop e(1) e(2) dst wpos] by (elim exE conjE)
  have vals: "landmark_values d ! (4 * idx) = lm_x (lms ! idx)
                   \<and> landmark_values d ! (4 * idx + 1) = lm_y (lms ! idx)
                   \<and> landmark_values d ! (4 * idx + 2) = lm_z (lms ! idx)
                   \<and> landmark_values d ! (4 * idx + 3) = lm_visibility (lms ! idx)"
    if "idx < 33" for idx
  proof -
    have "idx < length lms" using that p(5) by simp
    from flat_nth [OF this] show ?thesis
      unfolding p(6) using that by simp
  qed
  have sel: "int p mod max 1 (total_frames v div frames_per_sample) = 0"
    using p(3) unfolding e(3) by simp
  have first: "\<forall>q<p. int q mod max 1 (total_frames v div frames_per_sample) = 0
                 \<longrightarrow> frames v ! q = None"
    using p(4) unfolding e(3) by simp
  have all: "\<forall>idx<33. landmark_values d ! (4 * idx) = lm_x (lms ! idx)
                   \<and> landmark_values d ! (4 * idx + 1) = lm_y (lms ! idx)
                   \<and> landmark_values d ! (4 * idx + 2) = lm_z (lms ! idx)
                   \<and> landmark_values d ! (4 * idx + 3) = lm_visibility (lms ! idx)"
    using vals by blast
  show ?thesis
    by (rule exI [of _ p], rule exI [of _ lms]) (intro conjI p(1) p(2) sel first all)
qed

theorem first_detection_is_raw_witness:
  "\<exists>d ds. process_video example_video 7 96 5 = Inr (d # ds)
     \<and> landmark_values d ! 0 = 1 \<and> landmark_values d ! 1 = 2
     \<and> landmark_values d ! 2 = 3 \<and> landmark_values d ! 3 = 1 / 2"
proof -
  obtain st where st: "process_video_state example_video 7 96 5 = Inr st"
    and len: "length (data st) = 4"
    using example_video_state by blast
  obtain d ds where dst: "data st = d # ds"
    using len by (cases "data st") auto
  have run: "process_video example_video 7 96 5 = Inr (d # ds)"
    using process_video_data [OF st] dst by simp
  obtain p lms where p: "frames example_video ! p = Some lms"
    "\<forall>q<p. int q mod max 1 (total_frames example_video div 96) = 0
           \<longrightarrow> frames example_video ! q = None"
    "\<forall>idx<33. landmark_values d ! (4 * idx) = lm_x (lms ! idx)
                   \<and> landmark_values d ! (4 * idx + 1) = lm_y (lms ! idx)
                   \<and> landmark_values d ! (4 * idx + 2) = lm_z (lms ! idx)
                   \<and> landmark_values d ! (4 * idx + 3) = lm_visibility (lms ! idx)"
    using first_detection_is_raw [OF run] by (elim exE conjE)
  have f0: "frames example_video ! 0 = Some example_pose_a"
    by (simp add: example_video_def)
  have "p = 0"
  proof (rule ccontr)
    assume "p \<noteq> 0"
    then have pos: "0 < p" by simp
    have m0: "int 0 mod max 1 (total_frames example_video div 96) = 0" by simp
    have "frames example_video ! 0 = None"
      by (rule p(2) [rule_format, OF pos m0])
    then show False using f0 by simp
  qed
  then have lms: "lms = example_pose_a" using p(1) f0 by simp
  have i0: "(0::nat) < 33" by simp
  have "landmark_values d ! (4 * 0) = lm_x (lms ! 0)
                   \<and> landmark_values d ! (4 * 0 + 1) = lm_y (lms ! 0)
                   \<and> landmark_values d ! (4 * 0 + 2) = lm_z (lms ! 0)
                   \<and> landmark_values d ! (4 * 0 + 3) = lm_visibility (lms ! 0)"
    by (rule p(3) [rule_format, OF i0])
  then have "landmark_values d ! 0 = 1 \<and> landmark_values d ! 1 = 2
     \<and> landmark_values d ! 2 = 3 \<and> landmark_values d ! 3 = 1 / 2"
    unfolding lms by (simp add: example_pose_a_def numeral_2_eq_2)
  then show ?thesis using run by blast
qed

subsection \<open>Runs that raise nothing\<close>

text \<open>
  No exception in a run whose detections all carry at least 33 landmarks: the
  buffer rows and the records keep their 132 values.
\<close>

lemma on_detection_returns:
  assumes "33 \<le> length lms" "\<forall>row \<in> set (frame_buffer st). length row = 132"
  shows "\<exists>st'. on_detection sn dn w lms st = Inr st'
      \<and> (\<forall>row \<in> set (frame_buffer st'). length row = 132)"
proof -
  let ?flat = "take 132 (concat (map (\<lambda>l. [lm_x l, lm_y l, lm_z l, lm_visibility l]) lms))"
  let ?buf = "deque_append w (frame_buffer st) ?flat"
  have flat: "flattened_landmarks (create_landmark_dict lms sn (sampled_frames st + 1) dn)
              = Inr ?flat"
    using assms(1) by (rule flattened_landmarks_ok)
  have len: "length ?flat = 132" using assms(1) by (simp add: length_flat)
  have rows: "\<forall>row \<in> set ?buf. length row = 132"
    using deque_append_set [of w "frame_buffer st" ?flat] assms(2) len by auto
  show ?thesis
  proof (cases "?buf = []")
    case True
    then have "smooth_landmarks ?buf (int w) = Inr None"
      using smooth_landmarks_None_iff by blast
    then show ?thesis
      using flat True by (simp add: on_detection_def Let_def)
  next
    case False
    then have l1: "1 \<le> length ?buf" by (cases ?buf) auto
    have l2: "int (length ?buf) \<le> int w"
      by (simp add: deque_append_length)
    have sm: "smooth_landmarks ?buf (int w) = Inr (Some (naive_mean ?buf))"
      using l1 l2 rows by (rule smooth_landmarks_naive)
    have "length (naive_mean ?buf) = 132" by (simp add: naive_mean_def)
    then have sd: "smoothed_dict sn (sampled_frames st + 1) dn (naive_mean ?buf)
       = Inr \<lparr>sample_number = sn, frame_number = sampled_frames st + 1, dance_name = dn,
               landmark_values = naive_mean ?buf\<rparr>"
      by (rule smoothed_dict_ok)
    show ?thesis
      using rows by (simp add: on_detection_def Let_def flat sm sd)
  qed
qed

lemma on_missing_returns:
  assumes "\<forall>f \<in> set (data st). 132 \<le> length (landmark_values f)"
  shows "\<exists>st'. on_missing st = Inr st'"
proof (cases "2 \<le> length (data st)")
  case False
  then show ?thesis by (simp add: on_missing_def)
next
  case True
  then have "length (data st) - 2 < length (data st)"
    and "length (data st) - 1 < length (data st)"
    by arith+
  then have "data st ! (length (data st) - 2) \<in> set (data st)"
    and "data st ! (length (data st) - 1) \<in> set (data st)"
    by simp_all
  then have "132 \<le> length (landmark_values (data st ! (length (data st) - 2)))"
    and "132 \<le> length (landmark_values (data st ! (length (data st) - 1)))"
    using assms by blast+
  then show ?thesis
    using True by (simp add: on_missing_def Let_def interpolate_ok)
qed

lemma process_frame_returns:
  assumes r: "\<And>lms. r = Some lms \<Longrightarrow> 33 \<le> length lms"
    and buf: "\<forall>row \<in> set (frame_buffer st). length row = 132"
    and recs: "\<forall>f \<in> set (data st). 132 \<le> length (landmark_values f)"
  shows "\<exists>st'. process_frame sn dn iv w r st = Inr st'
      \<and> (\<forall>row \<in> set (frame_buffer st'). length row = 132)
      \<and> (\<forall>f \<in> set (data st'). 132 \<le> length (landmark_values f))"
proof -
  have keep: "(\<forall>row \<in> set (frame_buffer st'). length row = 132)
      \<and> (\<forall>f \<in> set (data st'). 132 \<le> length (landmark_values f))"
    if st': "process_frame sn dn iv w r st = Inr st'"
      and b: "\<forall>row \<in> set (frame_buffer st'). length row = 132" for st'
  proof -
    have "data st' = data st \<or> (\<exists>d. data st' = data st @ [d] \<and> length (landmark_values d) = 132)"
      using process_frame_Inr [OF st'] by blast
    then have "\<forall>f \<in> set (data st'). 132 \<le> length (landmark_values f)"
      using recs by auto
    then show ?thesis using b by simp
  qed
  show ?thesis
  proof (cases "int (frame_count st) mod iv = 0")
    case False
    have e: "process_frame sn dn iv w r st = Inr (st\<lparr>frame_count := frame_count st + 1\<rparr>)"
      using False by (rule process_frame_skip)
    have "\<forall>row \<in> set (frame_buffer (st\<lparr>frame_count := frame_count st + 1\<rparr>)). length row = 132"
      using buf by simp
    from keep [OF e this] e show ?thesis by blast
  next
    case True
    let ?st1 = "st\<lparr>submitted := submitted st @ [frame_count st]\<rparr>"
    show ?thesis
    proof (cases r)
      case None
      have "\<forall>f \<in> set (data ?st1). 132 \<le> length (landmark_values f)"
        using recs by simp
      then obtain st2 where st2: "on_missing ?st1 = Inr st2"
        using on_missing_returns by blast
      have b2: "frame_buffer st2 = frame_buffer st"
        using on_missing_Inr [OF st2] by simp
      have e: "process_frame sn dn iv w r st = Inr (st2\<lparr>frame_count := frame_count st2 + 1\<rparr>)"
        using True None st2 by (simp add: process_frame_def Let_def)
      have "\<forall>row \<in> set (frame_buffer (st2\<lparr>frame_count := frame_count st2 + 1\<rparr>)).
              length row = 132"
        using buf b2 by simp
      from keep [OF e this] e show ?thesis by blast
    next
      case (Some lms)
      have l: "33 \<le> length lms" using Some by (rule r)
      have "\<forall>row \<in> set (frame_buffer ?st1). length row = 132"
        using buf by simp
      from on_detection_returns [OF l this, of sn dn w]
      obtain st2 where st2: "on_detection sn dn w lms ?st1 = Inr st2"
        and b2: "\<forall>row \<in> set (frame_buffer st2). length row = 132"
        by blast
      have e: "process_frame sn dn iv w r st = Inr (st2\<lparr>frame_count := frame_count st2 + 1\<rparr>)"
        using True Some st2 by (simp add: process_frame_def Let_def)
      have "\<forall>row \<in> set (frame_buffer (st2\<lparr>frame_count := frame_count st2 + 1\<rparr>)).
              length row = 132"
        using b2 by simp
      from keep [OF e this] e show ?thesis by blast
    qed
  qed
qed

lemma sample_loop_returns:
  assumes "\<forall>r \<in> set fs. \<forall>lms. r = Some lms \<longrightarrow> 33 \<le> length lms"
    and "\<forall>row \<in> set (frame_buffer st). length row = 132"
    and "\<forall>f \<in> set (data st). 132 \<le> length (landmark_values f)"
  shows "\<exists>st'. sample_loop opn K sn dn iv w st fs = Inr st'"
  using assms
proof (induction fs arbitrary: st)
  case Nil
  then show ?case by simp
next
  case (Cons r rest)
  show ?case
  proof (cases "opn \<and> sampled_frames st < K")
    case False
    then show ?thesis by auto
  next
    case True
    let ?st0 = "st\<lparr>reads := reads st + 1\<rparr>"
    have r: "\<And>lms. r = Some lms \<Longrightarrow> 33 \<le> length lms"
      using Cons.prems(1) by simp
    have b0: "\<forall>row \<in> set (frame_buffer ?st0). length row = 132"
      using Cons.prems(2) by simp
    have d0: "\<forall>f \<in> set (data ?st0). 132 \<le> length (landmark_values f)"
      using Cons.prems(3) by simp
    obtain s' where s': "process_frame sn dn iv w r ?st0 = Inr s'"
      and b': "\<forall>row \<in> set (frame_buffer s'). length row = 132"
      and d': "\<forall>f \<in> set (data s'). 132 \<le> length (landmark_values f)"
      using process_frame_returns [OF r b0 d0, where sn = sn and dn = dn and iv = iv
          and w = w] by blast
    have rest: "\<forall>r \<in> set rest. \<forall>lms. r = Some lms \<longrightarrow> 33 \<le> length lms"
      using Cons.prems(1) by simp
    obtain st' where "sample_loop opn K sn dn iv w s' rest = Inr st'"
      using Cons.IH [OF rest b' d'] by blast
    then show ?thesis using True s' by simp
  qed
qed

text \<open>
  \<open>process_video\<close> returns a sequence for every target count other than zero and every
  smoothing window that is not negative, when each detection carries at least the 33
  landmarks the flattening loop reads.
\<close>

lemma process_video_returns:
  assumes "frames_per_sample \<noteq> 0" "0 \<le> smoothing_window"
    and "\<forall>r \<in> set (frames v). \<forall>lms. r = Some lms \<longrightarrow> 33 \<le> length lms"
  shows "\<exists>records. process_video v sample_no frames_per_sample smoothing_window = Inr records"
proof -
  have "\<exists>st'. sample_loop (opened v) frames_per_sample sample_no
               (extract_dance_name (basename (video_path v)) VALID_DANCE_NAMES)
               (max 1 (total_frames v div frames_per_sample)) (nat smoothing_window)
               initial_state (frames v) = Inr st'"
    using assms(3) by (rule sample_loop_returns) (simp_all add: initial_state_def)
  then have "\<exists>st. process_video_state v sample_no frames_per_sample smoothing_window = Inr st"
    using assms(1,2) by (simp add: process_video_state_def Let_def)
  then show ?thesis
    using process_video_data by blast
qed

end
